theory Spec2Isabelle
  imports Complex_Main "HOL-Library.Word"
begin

section \<open>JavaScript values\<close>

text \<open>
  A JavaScript string is a sequence of UTF-16 code units; \<open>length\<close>, indexing,
  \<open>substring\<close>, \<open>split\<close> and regular expressions without the \<open>u\<close> flag all
  work on code units. The Czech letters of \<open>czechFallbacks\<close> are single code units above
  255, so a string is a list of 16-bit words. Numbers are modelled as reals: the
  arithmetic of the source is read as exact arithmetic.
\<close>

type_synonym jschar = "16 word"
type_synonym jsstring = "jschar list"

definition js :: "string \<Rightarrow> jsstring" where
  "js s = map of_char s"

text \<open>\<open>s.substring(a, b)\<close> for non-negative integers: the arguments are swapped when
  \<open>a > b\<close> and clamped to the length.\<close>

definition substring :: "jsstring \<Rightarrow> nat \<Rightarrow> nat \<Rightarrow> jsstring" where
  "substring s a b = take (max a b - min a b) (drop (min a b) s)"

text \<open>\<open>s.split(" ")\<close>: every single space is a separator, so two spaces in a row give an
  empty piece, and the empty string gives one empty piece.\<close>

fun split_space :: "jsstring \<Rightarrow> jsstring list" where
  "split_space [] = [[]]"
| "split_space (c # cs) =
     (if c = 0x20 then [] # split_space cs
      else (case split_space cs of [] \<Rightarrow> [[c]] | w # ws \<Rightarrow> (c # w) # ws))"

text \<open>\<open>words.join(" ")\<close>.\<close>

fun join_space :: "jsstring list \<Rightarrow> jsstring" where
  "join_space [] = []"
| "join_space [w] = w"
| "join_space (w # ws) = w @ 0x20 # join_space ws"

text \<open>The class \<open>\s\<close> of a JavaScript regular expression: the white space and line
  terminator code points.\<close>

definition isWhiteSpace :: "jschar \<Rightarrow> bool" where
  "isWhiteSpace c =
     (c \<in> set [0x09, 0x0A, 0x0B, 0x0C, 0x0D, 0x20, 0xA0, 0x1680, 0x2028, 0x2029,
                0x202F, 0x205F, 0x3000, 0xFEFF]
      \<or> (0x2000 \<le> c \<and> c \<le> 0x200A))"

text \<open>\<open>s.split(/\s+/)\<close>: every maximal run of white space is one separator; a run at the
  start or at the end leaves an empty piece there.\<close>

function split_whitespace :: "jsstring \<Rightarrow> jsstring list" where
  "split_whitespace [] = [[]]"
| "split_whitespace (c # cs) =
     (if isWhiteSpace c then [] # split_whitespace (dropWhile isWhiteSpace cs)
      else (case split_whitespace cs of [] \<Rightarrow> [[c]] | w # ws \<Rightarrow> (c # w) # ws))"
  by pat_completeness auto
termination
  by (relation "measure length") (auto simp: less_Suc_eq_le length_dropWhile_le)

section \<open>The drawing surface\<close>

text \<open>
  The jsPDF document keeps a current font style and font size, and
  \<open>getTextWidth\<close> measures a string in the current font. The measurement itself is
  the library's; it is a parameter \<open>tw\<close> of the model, a function of the style, the
  size and the string. The calls that draw are recorded in order.
\<close>

datatype fontStyle = Normal | Bold | Italic

datatype drawCall =
    Text jsstring real real fontStyle real
  | AddPage

record jsPDF =
  docFontStyle :: fontStyle
  docFontSize :: real
  docCalls :: "drawCall list"

type_synonym widthOracle = "fontStyle \<Rightarrow> real \<Rightarrow> jsstring \<Rightarrow> real"

definition setFontSize :: "jsPDF \<Rightarrow> real \<Rightarrow> jsPDF" where
  "setFontSize d pt = d\<lparr>docFontSize := pt\<rparr>"

definition setFont :: "jsPDF \<Rightarrow> fontStyle \<Rightarrow> jsPDF" where
  "setFont d style = d\<lparr>docFontStyle := style\<rparr>"

definition getTextWidth :: "widthOracle \<Rightarrow> jsPDF \<Rightarrow> jsstring \<Rightarrow> real" where
  "getTextWidth tw d s = tw (docFontStyle d) (docFontSize d) s"

definition drawText :: "jsPDF \<Rightarrow> jsstring \<Rightarrow> real \<Rightarrow> real \<Rightarrow> jsPDF" where
  "drawText d s x y = d\<lparr>docCalls := docCalls d @ [Text s x y (docFontStyle d) (docFontSize d)]\<rparr>"

definition addPage :: "jsPDF \<Rightarrow> jsPDF" where
  "addPage d = d\<lparr>docCalls := docCalls d @ [AddPage]\<rparr>"

text \<open>The messages of \<open>console.log\<close>, one constructor for each call in the source,
  with the values the message is built from.\<close>

datatype logEntry =
    LogShortening jsstring real real
  | LogVowelRemoval jsstring
  | LogMorpheme jsstring
  | LogCombined jsstring
  | LogFinal jsstring
  | LogMidshow jsstring real real real

section \<open>Transliteration\<close>

text \<open>\<open>czechFallbacks\<close>, in the order of the object literal: the code unit of each Czech
  letter and the code unit of its ASCII letter.\<close>

definition czechFallbacks :: "(jschar \<times> jschar) list" where
  "czechFallbacks =
     [(0x00E1, 0x61), (0x010D, 0x63), (0x010F, 0x64), (0x00E9, 0x65), (0x011B, 0x65),
      (0x00ED, 0x69), (0x0148, 0x6E), (0x00F3, 0x6F), (0x0159, 0x72), (0x0161, 0x73),
      (0x0165, 0x74), (0x00FA, 0x75), (0x016F, 0x75), (0x00FD, 0x79), (0x017E, 0x7A),
      (0x00C1, 0x41), (0x010C, 0x43), (0x010E, 0x44), (0x00C9, 0x45), (0x011A, 0x45),
      (0x00CD, 0x49), (0x0147, 0x4E), (0x00D3, 0x4F), (0x0158, 0x52), (0x0160, 0x53),
      (0x0164, 0x54), (0x00DA, 0x55), (0x016E, 0x55), (0x00DD, 0x59), (0x017D, 0x5A)]"

text \<open>\<open>result.replace(new RegExp(czech, "g"), ascii)\<close> for a pattern of one ordinary
  character: every occurrence of the code unit is replaced.\<close>

definition replaceChar :: "jschar \<Rightarrow> jschar \<Rightarrow> jsstring \<Rightarrow> jsstring" where
  "replaceChar czech ascii result = map (\<lambda>c. if c = czech then ascii else c) result"

definition convertCzechCharacters :: "jsstring \<Rightarrow> jsstring" where
  "convertCzechCharacters txt =
     fold (\<lambda>(czech, ascii) result. replaceChar czech ascii result) czechFallbacks txt"

section \<open>Vowel removal\<close>

definition isVowel :: "jschar \<Rightarrow> bool" where
  "isVowel c = (c \<in> set (js ''aeiouAEIOU''))"

text \<open>The callback of \<open>map\<close> in \<open>applyVowelRemoval\<close>.\<close>

definition vowelRemovalWord :: "jsstring \<Rightarrow> jsstring" where
  "vowelRemovalWord word =
     (if length word \<le> 3 then word
      else
        let first = word ! 0;
            lastc = word ! (length word - 1);
            middle = substring word 1 (length word - 1);
            processedMiddle = filter (\<lambda>c. \<not> isVowel c) middle;
            processedMiddle' =
              (if length processedMiddle = 0 \<and> length middle > 1 then [middle ! 0]
               else processedMiddle)
        in first # processedMiddle' @ [lastc])"

definition applyVowelRemoval :: "jsstring \<Rightarrow> jsstring" where
  "applyVowelRemoval phrase = join_space (map vowelRemovalWord (split_space phrase))"

text \<open>The same in the words of the specification: a word of at most 3 characters is
  unchanged; a longer word keeps its first and its last character, the vowels are
  stripped from the interior, and when that empties an interior that was longer than one
  character, the first character of the interior is kept instead.\<close>

definition vowelRemovalWordSpec :: "jsstring \<Rightarrow> jsstring" where
  "vowelRemovalWordSpec word =
     (if length word \<le> 3 then word
      else
        let interior = butlast (tl word);
            stripped = filter (\<lambda>c. \<not> isVowel c) interior
        in hd word # (if stripped = [] \<and> length interior > 1 then [hd interior] else stripped)
             @ [last word])"

text \<open>The words of a phrase that white space delimits.\<close>

definition whitespaceWords :: "jsstring \<Rightarrow> jsstring list" where
  "whitespaceWords phrase = filter (\<lambda>w. w \<noteq> []) (split_whitespace phrase)"

section \<open>Morpheme substitution\<close>

text \<open>\<open>commonAbbreviations\<close>, the dictionary local to \<open>applyMorphemeShortening\<close>, in the
  order of the object literal.\<close>

definition commonAbbreviations :: "(jsstring \<times> jsstring) list" where
  "commonAbbreviations = map (\<lambda>(word, abbrev). (js word, js abbrev))
     [(''and'', ''&''), (''with'', ''w/''), (''without'', ''w/o''), (''the'', ''the''),
      (''through'', ''thru''), (''because'', ''bc''), (''before'', ''bfr''),
      (''after'', ''aftr''), (''between'', ''btwn''), (''around'', ''arnd''),
      (''tonight'', ''tnght''), (''something'', ''smthg''), (''someone'', ''smne''),
      (''together'', ''tgthr''), (''remember'', ''rmbr''), (''should'', ''shld''),
      (''would'', ''wld''), (''could'', ''cld''), (''never'', ''nvr''),
      (''every'', ''evry''), (''people'', ''ppl''), (''little'', ''ltl'')]"

text \<open>The class \<open>\w\<close> that decides \<open>\b\<close>: ASCII letters, digits and the underscore.\<close>

definition isWordChar :: "jschar \<Rightarrow> bool" where
  "isWordChar c =
     ((0x61 \<le> c \<and> c \<le> 0x7A) \<or> (0x41 \<le> c \<and> c \<le> 0x5A) \<or> (0x30 \<le> c \<and> c \<le> 0x39)
      \<or> c = 0x5F)"

text \<open>
  With the flag \<open>i\<close> and without the flag \<open>u\<close>, a pattern character and an input
  character match when their canonical forms are equal. The patterns here are ASCII
  letters, and a code unit above 127 is never canonicalised to an ASCII one, so only the
  ASCII part of the case folding can make a match: \<open>a\<close> to \<open>z\<close> go to \<open>A\<close> to \<open>Z\<close>.
\<close>

definition canonicalize :: "jschar \<Rightarrow> jschar" where
  "canonicalize c = (if 0x61 \<le> c \<and> c \<le> 0x7A then c - 0x20 else c)"

fun matchesPrefix :: "jsstring \<Rightarrow> jsstring \<Rightarrow> bool" where
  "matchesPrefix [] s = True"
| "matchesPrefix (k # ks) [] = False"
| "matchesPrefix (k # ks) (c # cs) =
     (if canonicalize k = canonicalize c then matchesPrefix ks cs else False)"

text \<open>\<open>\b\<close> between a character (\<open>prev\<close> says whether it is a word character; at the
  start of the string there is none) and the rest \<open>s\<close> of the string.\<close>

definition wordBoundary :: "bool \<Rightarrow> jsstring \<Rightarrow> bool" where
  "wordBoundary prev s = (prev \<noteq> (case s of [] \<Rightarrow> False | c # _ \<Rightarrow> isWordChar c))"

text \<open>Whether \<open>\bword\b\<close> matches at the start of \<open>s\<close>, for a non-empty \<open>word\<close>.\<close>

definition matchesAt :: "jsstring \<Rightarrow> bool \<Rightarrow> jsstring \<Rightarrow> bool" where
  "matchesAt word prev s =
     (if word = [] then False
      else if wordBoundary prev s then
        (if matchesPrefix word s
         then wordBoundary (isWordChar (last (take (length word) s))) (drop (length word) s)
         else False)
      else False)"

text \<open>\<open>result.replace(new RegExp(`\\b${word}\\b`, "gi"), abbrev)\<close>: the string is scanned
  from the left; a match is replaced by \<open>abbrev\<close> and the scan goes on behind it, any
  other character is copied. No abbreviation contains \<open>$\<close>, so the replacement is
  literal.\<close>

function replaceWord :: "jsstring \<Rightarrow> jsstring \<Rightarrow> bool \<Rightarrow> jsstring \<Rightarrow> jsstring" where
  "replaceWord word abbrev prev [] = []"
| "replaceWord word abbrev prev (c # cs) =
     (if matchesAt word prev (c # cs)
      then abbrev @ replaceWord word abbrev
             (isWordChar (last (take (length word) (c # cs)))) (drop (length word) (c # cs))
      else c # replaceWord word abbrev (isWordChar c) cs)"
  by pat_completeness auto
termination
  by (relation "measure (\<lambda>(word, abbrev, prev, s). length s)")
     (auto simp: matchesAt_def split: if_splits)

definition applyMorphemeShortening :: "jsstring \<Rightarrow> jsstring" where
  "applyMorphemeShortening phrase =
     fold (\<lambda>(word, abbrev) result. replaceWord word abbrev False result)
       commonAbbreviations phrase"

text \<open>The substitution in the words of the specification: a word whose lower-case form
  is a key of the dictionary becomes the abbreviation as the dictionary spells it, and any
  other word keeps its form.\<close>

definition toLowerASCII :: "jschar \<Rightarrow> jschar" where
  "toLowerASCII c = (if 0x41 \<le> c \<and> c \<le> 0x5A then c + 0x20 else c)"

definition abbreviateWord :: "jsstring \<Rightarrow> jsstring" where
  "abbreviateWord w =
     (case map_of commonAbbreviations (map toLowerASCII w) of
        Some abbrev \<Rightarrow> abbrev
      | None \<Rightarrow> w)"

text \<open>The whole stage in the words of the specification. The words of a phrase are its
  maximal runs of word characters (letters, digits, underscore); every word is
  abbreviated on its own, and every other character is copied.\<close>

function abbreviateWords :: "jsstring \<Rightarrow> jsstring" where
  "abbreviateWords [] = []"
| "abbreviateWords (c # cs) =
     (if isWordChar c
      then abbreviateWord (c # takeWhile isWordChar cs)
             @ abbreviateWords (dropWhile isWordChar cs)
      else c # abbreviateWords cs)"
  by pat_completeness auto
termination
  by (relation "measure length") (auto simp: less_Suc_eq_le length_dropWhile_le)

text \<open>What the keys of the dictionary are: words of one letter or more, all from \<open>a\<close> to
  \<open>z\<close>.\<close>

definition lowerCaseWord :: "jsstring \<Rightarrow> bool" where
  "lowerCaseWord k = (k \<noteq> [] \<and> list_all (\<lambda>c. 0x61 \<le> c \<and> c \<le> 0x7A) k)"

section \<open>Aggressive truncation\<close>

text \<open>\<open>maxLength\<close> is a number of characters: the one caller passes
  \<open>Math.max(2, ...)\<close>. Past the first test the word is longer than \<open>maxLength\<close>, so
  \<open>word[0]\<close> and \<open>word[word.length - 1]\<close> exist.\<close>

definition preserveWordShape :: "jsstring \<Rightarrow> nat \<Rightarrow> jsstring" where
  "preserveWordShape word maxLength =
     (if length word \<le> maxLength then word
      else if maxLength \<ge> 3 then
        let middleLength = maxLength - 2;
            middle = substring word 1 (length word - 1);
            truncatedMiddle = substring middle 0 middleLength
        in word ! 0 # truncatedMiddle @ [word ! (length word - 1)]
      else if maxLength \<ge> 2 then [word ! 0, word ! (length word - 1)]
      else [word ! 0])"

text \<open>One pass through the body of the \<open>for\<close> loop of
  \<open>applyAggressiveShortening\<close>, behind the \<open>break\<close> test: the result with the next
  word added. Both operands of \<open>Math.floor(remainingChars / remainingWords)\<close> are
  positive integers there, so it is the integer quotient.\<close>

definition aggressiveStep :: "int \<Rightarrow> int \<Rightarrow> jsstring \<Rightarrow> jsstring \<Rightarrow> jsstring" where
  "aggressiveStep remainingChars remainingWords word result =
     (let targetCharsForWord =
            max 2 (min (int (length word)) (remainingChars div remainingWords));
          result1 = (if result \<noteq> [] then result @ [0x20] else result);
          shortenedWord =
            (if int (length word) \<le> targetCharsForWord then word
             else preserveWordShape word (nat targetCharsForWord))
      in result1 @ shortenedWord)"

text \<open>The loop over the words that are left; \<open>remainingWords\<close> is their number.\<close>

fun aggressiveLoop :: "int \<Rightarrow> jsstring list \<Rightarrow> jsstring \<Rightarrow> int \<Rightarrow> jsstring" where
  "aggressiveLoop totalAvailableChars [] result usedChars = result"
| "aggressiveLoop totalAvailableChars (word # rest) result usedChars =
     (if totalAvailableChars - usedChars \<le> 0 then result
      else aggressiveLoop totalAvailableChars rest
             (aggressiveStep (totalAvailableChars - usedChars) (int (length (word # rest)))
                word result)
             (int (length (aggressiveStep (totalAvailableChars - usedChars)
                (int (length (word # rest))) word result))))"

text \<open>The width of \<open>"M"\<close> is taken to be positive, as it is for a font at a positive
  size (a zero width would make the quotient an IEEE infinity or NaN, which the reals do
  not have).\<close>

definition applyAggressiveShortening ::
  "widthOracle \<Rightarrow> jsPDF \<Rightarrow> jsstring \<Rightarrow> real \<Rightarrow> real \<Rightarrow> jsPDF \<times> jsstring" where
  "applyAggressiveShortening tw d phrase maxWidth fontSize =
     (let d1 = setFontSize d fontSize;
          words = split_whitespace phrase;
          avgCharWidth = getTextWidth tw d1 (js ''M'');
          totalAvailableChars = \<lfloor>maxWidth / avgCharWidth\<rfloor>
      in (d1, aggressiveLoop totalAvailableChars words [] 0))"

section \<open>The progressive shortener\<close>

definition shortenPhrase ::
  "widthOracle \<Rightarrow> jsPDF \<Rightarrow> jsstring \<Rightarrow> real \<Rightarrow> real \<Rightarrow> bool
     \<Rightarrow> jsPDF \<times> logEntry list \<times> jsstring" where
  "shortenPhrase tw d phrase maxWidth fontSize isSong =
     (let d1 = setFontSize d fontSize;
          workingPhrase = convertCzechCharacters phrase
      in if \<not> isSong then (d1, [], workingPhrase)
         else
           let textWidth = getTextWidth tw d1 workingPhrase
           in if textWidth \<le> maxWidth * 0.9 then (d1, [], workingPhrase)
              else
                let log0 = [LogShortening workingPhrase textWidth maxWidth];
                    shortened1 = applyVowelRemoval workingPhrase;
                    log1 = log0 @ [LogVowelRemoval shortened1]
                in if getTextWidth tw d1 shortened1 \<le> maxWidth then (d1, log1, shortened1)
                   else
                     let shortened2 = applyMorphemeShortening workingPhrase;
                         log2 = log1 @ [LogMorpheme shortened2]
                     in if getTextWidth tw d1 shortened2 \<le> maxWidth
                        then (d1, log2, shortened2)
                        else
                          let shortened3 =
                                applyVowelRemoval (applyMorphemeShortening workingPhrase);
                              log3 = log2 @ [LogCombined shortened3]
                          in if getTextWidth tw d1 shortened3 \<le> maxWidth
                             then (d1, log3, shortened3)
                             else
                               let (d2, final) =
                                     applyAggressiveShortening tw d1 shortened3 maxWidth fontSize
                               in (d2, log3 @ [LogFinal final], final))"

text \<open>The stages in the words of the specification: the outputs of the stages are tried
  in order and the first one that fits is the result; when none fits, the fallback is.\<close>

fun firstFit :: "(jsstring \<Rightarrow> bool) \<Rightarrow> jsstring list \<Rightarrow> jsstring \<Rightarrow> jsstring" where
  "firstFit fits [] fallback = fallback"
| "firstFit fits (x # xs) fallback = (if fits x then x else firstFit fits xs fallback)"

text \<open>The number of stages tried on the way: the fallback counts as one.\<close>

fun stagesTried :: "(jsstring \<Rightarrow> bool) \<Rightarrow> jsstring list \<Rightarrow> nat" where
  "stagesTried fits [] = 1"
| "stagesTried fits (x # xs) = (if fits x then 1 else 1 + stagesTried fits xs)"

section \<open>Font sizes\<close>

text \<open>A setlist entry: \<open>item.type\<close>, \<open>item.song\<close> and \<open>item.text\<close>. An entry is a
  break when its type is \<open>"midshow"\<close> and a song otherwise.\<close>

record item =
  itemType :: jsstring
  itemSong :: jsstring
  itemText :: jsstring

definition isSongItem :: "item \<Rightarrow> bool" where
  "isSongItem it = (itemType it \<noteq> js ''midshow'')"

text \<open>The fields set by the constructor.\<close>

definition pageWidth :: real where "pageWidth = 210"
definition pageHeight :: real where "pageHeight = 297"
definition margin :: real where "margin = 8"
definition contentWidth :: real where "contentWidth = pageWidth - margin * 2"
definition contentHeight :: real where "contentHeight = pageHeight - margin * 2"
definition PT_TO_MM :: real where "PT_TO_MM = 0.3528"

record fontSizes =
  songFontSize :: real
  midshowFontSize :: real

text \<open>The callback of \<open>setlist.forEach\<close> in \<open>calculateSinglePageSizes\<close>: the new value
  of \<open>estimatedHeight\<close>.\<close>

definition estimateItem :: "real \<Rightarrow> real \<Rightarrow> real \<Rightarrow> item \<Rightarrow> nat \<Rightarrow> real" where
  "estimateItem songSize midshowSize estimatedHeight it index =
     (let isSong = isSongItem it;
          fontSize = (if isSong then songSize else midshowSize);
          lineHeight = fontSize * PT_TO_MM * 1.05;
          h = (if \<not> isSong \<and> index > 0 then estimatedHeight + fontSize * PT_TO_MM * 0.15
               else estimatedHeight)
      in h + lineHeight)"

fun estimateLoop :: "real \<Rightarrow> real \<Rightarrow> item list \<Rightarrow> nat \<Rightarrow> real \<Rightarrow> real" where
  "estimateLoop songSize midshowSize [] index estimatedHeight = estimatedHeight"
| "estimateLoop songSize midshowSize (it # rest) index estimatedHeight =
     estimateLoop songSize midshowSize rest (index + 1)
       (estimateItem songSize midshowSize estimatedHeight it index)"

text \<open>The estimate for one candidate \<open>size\<close>: the body of the \<open>for\<close> loop up to the
  test.\<close>

definition midshowSizeFor :: "int \<Rightarrow> real" where
  "midshowSizeFor sz = max 16 (real_of_int sz * 0.6)"

definition estimatedHeightFor :: "item list \<Rightarrow> int \<Rightarrow> real" where
  "estimatedHeightFor setlist sz =
     estimateLoop (real_of_int sz) (midshowSizeFor sz) setlist 0 0"

definition availableHeight :: real where
  "availableHeight = contentHeight - 20"

text \<open>\<open>for (let size = 60; size >= 24; size -= 2)\<close> with its \<open>break\<close>. The pair is
  \<open>(songSize, midshowSize)\<close>, which keeps the values of the last candidate tried when
  the loop runs to its end.\<close>

function sizeLoop :: "item list \<Rightarrow> int \<Rightarrow> real \<times> real \<Rightarrow> real \<times> real" where
  "sizeLoop setlist sz sizes =
     (if sz \<ge> 24 then
        (if estimatedHeightFor setlist sz \<le> availableHeight
         then (real_of_int sz, midshowSizeFor sz)
         else sizeLoop setlist (sz - 2) (real_of_int sz, midshowSizeFor sz))
      else sizes)"
  by pat_completeness auto
termination
  by (relation "measure (\<lambda>(setlist, sz, sizes). nat (sz - 22))") auto

declare sizeLoop.simps [simp del]

definition calculateSinglePageSizes :: "item list \<Rightarrow> fontSizes" where
  "calculateSinglePageSizes setlist =
     (let (songSize, midshowSize) = sizeLoop setlist 60 (32, 20)
      in \<lparr>songFontSize = max 24 songSize, midshowFontSize = max 14 midshowSize\<rparr>)"

definition calculateFontSizes :: "item list \<Rightarrow> fontSizes" where
  "calculateFontSizes setlist =
     (let songCount = length (filter isSongItem setlist);
          minSongSize = 42;
          minMidshowSize = 28
      in if songCount \<le> 9 then calculateSinglePageSizes setlist
         else \<lparr>songFontSize = minSongSize, midshowFontSize = minMidshowSize\<rparr>)"

text \<open>The estimate in the words of the specification: every entry contributes its font
  size times \<open>0.3528 \<times> 1.05\<close>, and every break that is not the first entry of the
  setlist contributes its font size times \<open>0.3528 \<times> 0.15\<close> more.\<close>

definition entrySize :: "int \<Rightarrow> item \<Rightarrow> real" where
  "entrySize sz it = (if isSongItem it then real_of_int sz else max 16 (real_of_int sz * 0.6))"

definition stackedHeight :: "item list \<Rightarrow> int \<Rightarrow> real" where
  "stackedHeight setlist sz =
     (\<Sum>it \<leftarrow> setlist. entrySize sz it * 0.3528 * 1.05)
     + (\<Sum>it \<leftarrow> filter (\<lambda>it. \<not> isSongItem it) (tl setlist). entrySize sz it * 0.3528 * 0.15)"

definition candidates :: "int list" where
  "candidates = [60, 58, 56, 54, 52, 50, 48, 46, 44, 42, 40, 38, 36, 34, 32, 30, 28, 26, 24]"

definition usableHeight :: real where
  "usableHeight = (297 - 2 * 8) - 20"

section \<open>The stage view\<close>

text \<open>The \<open>while\<close> loop of \<open>calculateMidshowFontSize\<close>; the triple is the document, the
  font size and the measured width at the end.\<close>

function midshowLoop ::
  "widthOracle \<Rightarrow> jsPDF \<Rightarrow> jsstring \<Rightarrow> real \<Rightarrow> real \<Rightarrow> real \<Rightarrow> jsPDF \<times> real \<times> real" where
  "midshowLoop tw d workingText maxWidth fontSize textWidth =
     (if textWidth > maxWidth \<and> fontSize > 8 then
        midshowLoop tw (setFontSize d (fontSize - 1)) workingText maxWidth (fontSize - 1)
          (getTextWidth tw (setFontSize d (fontSize - 1)) workingText)
      else (d, fontSize, textWidth))"
  by pat_completeness auto
termination
proof (relation "measure (\<lambda>(tw, d, workingText, maxWidth, fontSize, textWidth).
        nat \<lceil>fontSize - 8\<rceil>)")
  fix tw :: widthOracle and d :: jsPDF and workingText :: jsstring
    and maxWidth fontSize textWidth :: real
  assume "maxWidth < textWidth \<and> 8 < fontSize"
  then have "0 < \<lceil>fontSize - 8\<rceil>" by simp
  moreover have "\<lceil>fontSize - 1 - 8\<rceil> = \<lceil>fontSize - 8\<rceil> - 1" by linarith
  ultimately show
    "((tw, setFontSize d (fontSize - 1), workingText, maxWidth, fontSize - 1,
       getTextWidth tw (setFontSize d (fontSize - 1)) workingText),
      tw, d, workingText, maxWidth, fontSize, textWidth)
     \<in> measure (\<lambda>(tw, d, workingText, maxWidth, fontSize, textWidth).
          nat \<lceil>fontSize - 8\<rceil>)"
    by simp
qed simp

declare midshowLoop.simps [simp del]

definition calculateMidshowFontSize ::
  "widthOracle \<Rightarrow> jsPDF \<Rightarrow> jsstring \<Rightarrow> real \<Rightarrow> real \<Rightarrow> jsPDF \<times> logEntry list \<times> real" where
  "calculateMidshowFontSize tw d txt maxWidth baseFontSize =
     (let workingText = convertCzechCharacters txt;
          d1 = setFontSize d baseFontSize;
          (d2, fontSize, textWidth) =
            midshowLoop tw d1 workingText maxWidth baseFontSize (getTextWidth tw d1 workingText)
      in (d2, [LogMidshow workingText fontSize textWidth maxWidth], fontSize))"

text \<open>The callback of \<open>setlist.forEach\<close> in \<open>addSetlistContent\<close>. The state is the
  document, the console and \<open>yPosition\<close>.\<close>

definition addSetlistItem ::
  "widthOracle \<Rightarrow> fontSizes \<Rightarrow> bool \<Rightarrow> jsPDF \<times> logEntry list \<times> real \<Rightarrow> item \<Rightarrow> nat
     \<Rightarrow> jsPDF \<times> logEntry list \<times> real" where
  "addSetlistItem tw sizes forceSinglePage st it index =
     (let (d, console, yPosition) = st;
          isSong = isSongItem it;
          txt = (if isSong then itemSong it else itemText it);
          maxWidth = (if isSong then contentWidth else contentWidth - 15);
          (d1, log1, actualFontSize) =
            (if isSong then (d, [], songFontSize sizes)
             else calculateMidshowFontSize tw d txt maxWidth (midshowFontSize sizes));
          yPosition1 =
            (if \<not> isSong \<and> index > 0
             then yPosition + (if forceSinglePage then actualFontSize * PT_TO_MM * 0.1
                               else actualFontSize * PT_TO_MM * 0.2)
             else yPosition);
          (d2, log2, displayText) = shortenPhrase tw d1 txt maxWidth actualFontSize isSong;
          d3 = setFontSize d2 actualFontSize;
          d4 = (if \<not> isSong then setFont d3 Italic else setFont d3 Bold);
          xPos = (if isSong then margin else margin + 15);
          baselineOffset = actualFontSize * PT_TO_MM * 0.8;
          d5 = drawText d4 displayText xPos (yPosition1 + baselineOffset);
          lineHeight = (if forceSinglePage then actualFontSize * PT_TO_MM * 1.05
                        else actualFontSize * PT_TO_MM * 1.15);
          yPosition2 = yPosition1 + lineHeight
      in if \<not> forceSinglePage \<and> yPosition2 + lineHeight > pageHeight - margin
         then (addPage d5, console @ log1 @ log2, margin + 15)
         else (d5, console @ log1 @ log2, yPosition2))"

fun addSetlistLoop ::
  "widthOracle \<Rightarrow> fontSizes \<Rightarrow> bool \<Rightarrow> jsPDF \<times> logEntry list \<times> real \<Rightarrow> item list \<Rightarrow> nat
     \<Rightarrow> jsPDF \<times> logEntry list \<times> real" where
  "addSetlistLoop tw sizes forceSinglePage st [] index = st"
| "addSetlistLoop tw sizes forceSinglePage st (it # rest) index =
     addSetlistLoop tw sizes forceSinglePage
       (addSetlistItem tw sizes forceSinglePage st it index) rest (index + 1)"

definition addSetlistContent ::
  "widthOracle \<Rightarrow> jsPDF \<Rightarrow> logEntry list \<Rightarrow> item list \<Rightarrow> jsPDF \<times> logEntry list" where
  "addSetlistContent tw d console setlist =
     (let sizes = calculateFontSizes setlist;
          songCount = length (filter isSongItem setlist);
          forceSinglePage = (songCount \<le> 9);
          yPosition = margin + 15;
          d1 = setFont d Bold;
          (d2, console2, y2) =
            addSetlistLoop tw sizes forceSinglePage (d1, console, yPosition) setlist 0
      in (d2, console2))"

text \<open>The font sizes at which the entries are drawn, in the order of the calls of
  \<open>doc.text\<close>.\<close>

definition drawnFontSizes :: "jsPDF \<Rightarrow> real list" where
  "drawnFontSizes d =
     concat (map (\<lambda>c. case c of Text s x y style pt \<Rightarrow> [pt] | AddPage \<Rightarrow> []) (docCalls d))"

section \<open>Export\<close>

text \<open>
  The state that \<open>export\<close> can change: \<open>this.doc\<close> (\<open>null\<close> after the constructor),
  \<open>window.songs\<close>, the console, and the files saved. \<open>window.jspdf\<close> is the
  library: when it is not loaded, reading \<open>jsPDF\<close> from it raises a \<open>TypeError\<close>.
  \<open>addOrganizerSection\<close> draws the organizer table on the document from the setlist
  and \<open>window.songs\<close>; its drawing calls are a parameter \<open>organizer\<close> of the model.
  \<open>today\<close> is the result of \<open>new Date().toLocaleDateString()\<close>.
\<close>

datatype error = TypeError

record song =
  songName :: jsstring
  songVibe :: jsstring
  songDuration :: real

record exporter =
  thisDoc :: "jsPDF option"
  windowSongs :: "song list option"
  console :: "logEntry list"
  savedFiles :: "(jsstring \<times> jsPDF) list"

definition newJsPDF :: jsPDF where
  "newJsPDF = \<lparr>docFontStyle = Normal, docFontSize = 16, docCalls = []\<rparr>"

definition saveName :: "jsstring \<Rightarrow> jsstring" where
  "saveName today = js ''setlist-'' @ replaceChar 0x2F 0x2D today @ js ''.pdf''"

definition export ::
  "widthOracle \<Rightarrow> (jsPDF \<Rightarrow> song list option \<Rightarrow> item list \<Rightarrow> jsPDF) \<Rightarrow> bool \<Rightarrow> jsstring
     \<Rightarrow> exporter \<Rightarrow> item list \<Rightarrow> song list option \<Rightarrow> error + exporter" where
  "export tw organizer jspdfLoaded today st setlist songs =
     (if length setlist = 0 then Inr st
      else if \<not> jspdfLoaded then Inl TypeError
      else
        let d = newJsPDF;
            ws = (case songs of Some s \<Rightarrow> Some s | None \<Rightarrow> windowSongs st);
            (d1, console1) = addSetlistContent tw d (console st) setlist;
            d2 = addPage d1;
            d3 = organizer d2 ws setlist
        in Inr \<lparr>thisDoc = Some d3, windowSongs = ws, console = console1,
                 savedFiles = savedFiles st @ [(saveName today, d3)]\<rparr>)"

section \<open>Example inputs\<close>

text \<open>A width function for the examples: every character is \<open>0.2\<close> mm wide for each
  point of the font size, whatever the style.\<close>

definition exampleWidth :: widthOracle where
  "exampleWidth style pt s = pt * 0.2 * real (length s)"

text \<open>Setlist entries for the examples.\<close>

definition exampleSong :: "string \<Rightarrow> item" where
  "exampleSong title = \<lparr>itemType = js ''song'', itemSong = js title, itemText = []\<rparr>"

definition exampleBreak :: "string \<Rightarrow> item" where
  "exampleBreak label = \<lparr>itemType = js ''midshow'', itemSong = [], itemText = js label\<rparr>"

section \<open>Properties of the transliteration\<close>

lemma fold_replaceChar_map:
  "fold (\<lambda>(czech, ascii) result. replaceChar czech ascii result) tbl s =
   map (fold (\<lambda>(czech, ascii) c. if c = czech then ascii else c) tbl) s"
  by (induction tbl arbitrary: s) (auto simp: replaceChar_def)

lemma fold_lookup_not_key:
  "\<forall>(czech, ascii) \<in> set tbl. c \<noteq> czech \<Longrightarrow>
   fold (\<lambda>(czech, ascii) c. if c = czech then ascii else c) tbl c = c"
  by (induction tbl) auto

lemma fold_lookup_range:
  "fold (\<lambda>(czech, ascii) c. if c = czech then ascii else c) tbl c = c
   \<or> (\<exists>czech. (czech, fold (\<lambda>(czech, ascii) c. if c = czech then ascii else c) tbl c) \<in> set tbl)"
proof (induction tbl arbitrary: c)
  case Nil
  then show ?case by simp
next
  case (Cons p tbl)
  obtain czech ascii where p: "p = (czech, ascii)" by (cases p)
  show ?case
  proof (cases "c = czech")
    case True
    with Cons.IH [of ascii] show ?thesis by (simp add: p) blast
  next
    case False
    with Cons.IH [of c] show ?thesis by (simp add: p) blast
  qed
qed

lemma czechFallbacks_ascii:
  "list_all (\<lambda>(czech, ascii). 0x80 \<le> czech \<and> ascii < 0x80) czechFallbacks"
  by (simp add: czechFallbacks_def)

lemma czech_char_idem:
  "fold (\<lambda>(czech, ascii) c. if c = czech then ascii else c) czechFallbacks
     (fold (\<lambda>(czech, ascii) c. if c = czech then ascii else c) czechFallbacks c) =
   fold (\<lambda>(czech, ascii) c. if c = czech then ascii else c) czechFallbacks (c :: jschar)"
proof -
  let ?f = "fold (\<lambda>(czech, ascii) c. if c = czech then ascii else c) czechFallbacks"
  have tbl: "\<And>czech ascii. (czech, ascii) \<in> set czechFallbacks \<Longrightarrow> 0x80 \<le> czech \<and> ascii < 0x80"
    using czechFallbacks_ascii by (auto simp: list_all_iff)
  consider "?f c = c" | czech where "(czech, ?f c) \<in> set czechFallbacks"
    using fold_lookup_range [of czechFallbacks c] by blast
  then show ?thesis
  proof cases
    case 1
    then show ?thesis by simp
  next
    case 2
    then have "?f c < 0x80" using tbl by blast
    then have "\<forall>(czech, ascii) \<in> set czechFallbacks. ?f c \<noteq> czech"
      using tbl by fastforce
    then show ?thesis by (rule fold_lookup_not_key)
  qed
qed

text \<open>
  C7. Transliteration is idempotent: for every string \<open>s\<close>,
  \<open>convertCzechCharacters (convertCzechCharacters s) = convertCzechCharacters s\<close>. No
  output of the table is itself a key of the table.
\<close>

theorem convertCzechCharacters_idempotent:
  "convertCzechCharacters (convertCzechCharacters s) = convertCzechCharacters s"
  by (simp add: convertCzechCharacters_def fold_replaceChar_map czech_char_idem)

section \<open>Properties: evaluated examples\<close>

lemma length_js: "length (js s) = length s"
  by (simp add: js_def)

lemma exampleWidth_js: "exampleWidth style pt (js s) = pt * 0.2 * real (length s)"
  by (simp add: exampleWidth_def length_js)

lemma ex_convert:
  "convertCzechCharacters (js ''Dancing together forever tonight'') =
   js ''Dancing together forever tonight''"
  by code_simp

lemma ex_vowel:
  "applyVowelRemoval (js ''Dancing together forever tonight'') = js ''Dncng tgthr frvr tnght''"
  by code_simp

lemma ex_morpheme:
  "applyMorphemeShortening (js ''Dancing together forever tonight'') =
   js ''Dancing tgthr forever tnght''"
  by code_simp

lemma ex_combined:
  "applyVowelRemoval (js ''Dancing tgthr forever tnght'') = js ''Dncng tgthr frvr tnght''"
  by code_simp

lemma ex_loop_combined:
  "aggressiveLoop 16 (split_whitespace (js ''Dncng tgthr frvr tnght'')) [] 0 =
   js ''Dncg tgtr frr tnt''"
  by code_simp

lemma ex_loop_original:
  "aggressiveLoop 16 (split_whitespace (js ''Dancing together forever tonight'')) [] 0 =
   js ''Dang togr for tot''"
  by code_simp

lemma ex_aggressive:
  "aggressiveLoop 16 (split_whitespace s) [] 0 = r \<Longrightarrow>
   applyAggressiveShortening exampleWidth d s 194 60 = (setFontSize d 60, r)"
  by (simp add: applyAggressiveShortening_def Let_def getTextWidth_def setFontSize_def
      exampleWidth_js)

lemma ex_shorten:
  "shortenPhrase exampleWidth (setFont newJsPDF Bold) (js ''Dancing together forever tonight'')
     194 60 True =
   (setFontSize (setFont newJsPDF Bold) 60,
    [LogShortening (js ''Dancing together forever tonight'') 384 194,
     LogVowelRemoval (js ''Dncng tgthr frvr tnght''),
     LogMorpheme (js ''Dancing tgthr forever tnght''),
     LogCombined (js ''Dncng tgthr frvr tnght''),
     LogFinal (js ''Dncg tgtr frr tnt'')],
    js ''Dncg tgtr frr tnt'')"
  by (simp add: shortenPhrase_def Let_def getTextWidth_def ex_convert ex_vowel ex_morpheme
      ex_combined ex_aggressive [OF ex_loop_combined] exampleWidth_js)
     (simp add: setFontSize_def)
section \<open>Properties of the progressive shortener\<close>

text \<open>
  C6. For every phrase, width budget and font size, \<open>shortenPhrase\<close> called with
  \<open>isSong = false\<close> returns exactly the transliterated phrase: no shortening stage is
  applied to break text, whatever the measured widths are, and nothing is logged.
\<close>

theorem shortenPhrase_break_invariant:
  "snd (shortenPhrase tw d phrase maxWidth fontSize False) = ([], convertCzechCharacters phrase)"
  by (simp add: shortenPhrase_def Let_def)

text \<open>
  C3. For a song phrase with transliterated form \<open>t\<close> measured at the target font size:
  when the width of \<open>t\<close> is at most \<open>0.9 \<times> maxWidth\<close> (equality included) the result is
  \<open>t\<close> and no stage is attempted; when it is greater, stage 1 is attempted, and each of
  the stages 1 to 3, once reached, is the one returned exactly when its own output
  measures at most \<open>maxWidth\<close> itself.
\<close>

theorem shortenPhrase_thresholds:
  "let t = convertCzechCharacters phrase;
       W = tw (docFontStyle d) fontSize;
       s1 = applyVowelRemoval t;
       s2 = applyMorphemeShortening t;
       s3 = applyVowelRemoval (applyMorphemeShortening t);
       (d', log, result) = shortenPhrase tw d phrase maxWidth fontSize True
   in (W t \<le> maxWidth * 0.9 \<longrightarrow> log = [] \<and> result = t)
    \<and> (maxWidth * 0.9 < W t \<longrightarrow>
         take 2 log = [LogShortening t (W t) maxWidth, LogVowelRemoval s1]
       \<and> ((length log = 2 \<and> result = s1) \<longleftrightarrow> W s1 \<le> maxWidth)
       \<and> (maxWidth < W s1 \<longrightarrow>
            take 3 log = [LogShortening t (W t) maxWidth, LogVowelRemoval s1, LogMorpheme s2]
          \<and> ((length log = 3 \<and> result = s2) \<longleftrightarrow> W s2 \<le> maxWidth))
       \<and> (maxWidth < W s1 \<and> maxWidth < W s2 \<longrightarrow>
            take 4 log = [LogShortening t (W t) maxWidth, LogVowelRemoval s1, LogMorpheme s2,
                          LogCombined s3]
          \<and> ((length log = 4 \<and> result = s3) \<longleftrightarrow> W s3 \<le> maxWidth)))"
  by (auto simp: shortenPhrase_def Let_def getTextWidth_def setFontSize_def split: prod.splits)

lemma ex_convert_exact:
  "convertCzechCharacters (js ''Something Tonight!'') = js ''Something Tonight!''"
  by code_simp

theorem shortenPhrase_thresholds_witness:
  "exampleWidth (docFontStyle (setFont newJsPDF Bold)) 45
     (convertCzechCharacters (js ''Something Tonight!'')) = 180 * 0.9
   \<and> snd (shortenPhrase exampleWidth (setFont newJsPDF Bold) (js ''Something Tonight!'')
        180 45 True) = ([], convertCzechCharacters (js ''Something Tonight!''))
   \<and> 194 * 0.9 < exampleWidth (docFontStyle (setFont newJsPDF Bold)) 60
        (convertCzechCharacters (js ''Dancing together forever tonight''))
   \<and> 194 < exampleWidth (docFontStyle (setFont newJsPDF Bold)) 60
        (applyVowelRemoval (convertCzechCharacters (js ''Dancing together forever tonight'')))
   \<and> 194 < exampleWidth (docFontStyle (setFont newJsPDF Bold)) 60
        (applyMorphemeShortening
          (convertCzechCharacters (js ''Dancing together forever tonight'')))
   \<and> take 3 (fst (snd (shortenPhrase exampleWidth (setFont newJsPDF Bold)
        (js ''Dancing together forever tonight'') 194 60 True))) =
       [LogShortening (convertCzechCharacters (js ''Dancing together forever tonight''))
          (exampleWidth (docFontStyle (setFont newJsPDF Bold)) 60
            (convertCzechCharacters (js ''Dancing together forever tonight''))) 194,
        LogVowelRemoval (applyVowelRemoval
          (convertCzechCharacters (js ''Dancing together forever tonight''))),
        LogMorpheme (applyMorphemeShortening
          (convertCzechCharacters (js ''Dancing together forever tonight'')))]"
proof -
  have a: "exampleWidth (docFontStyle (setFont newJsPDF Bold)) 45
     (convertCzechCharacters (js ''Something Tonight!'')) = 180 * 0.9"
    by (simp add: ex_convert_exact exampleWidth_js)
  have b: "194 * 0.9 < exampleWidth (docFontStyle (setFont newJsPDF Bold)) 60
        (convertCzechCharacters (js ''Dancing together forever tonight''))"
    by (simp add: ex_convert exampleWidth_js)
  have c: "194 < exampleWidth (docFontStyle (setFont newJsPDF Bold)) 60
        (applyVowelRemoval (convertCzechCharacters (js ''Dancing together forever tonight'')))"
    by (simp add: ex_convert ex_vowel exampleWidth_js)
  have e: "194 < exampleWidth (docFontStyle (setFont newJsPDF Bold)) 60
        (applyMorphemeShortening
          (convertCzechCharacters (js ''Dancing together forever tonight'')))"
    by (simp add: ex_convert ex_morpheme exampleWidth_js)
  have A: "snd (shortenPhrase exampleWidth (setFont newJsPDF Bold) (js ''Something Tonight!'')
        180 45 True) = ([], convertCzechCharacters (js ''Something Tonight!''))"
    using a shortenPhrase_thresholds [where tw = exampleWidth and d = "setFont newJsPDF Bold"
        and phrase = "js ''Something Tonight!''" and maxWidth = 180 and fontSize = 45]
    by (simp add: Let_def case_prod_beta prod_eq_iff)
  have B: "take 3 (fst (snd (shortenPhrase exampleWidth (setFont newJsPDF Bold)
        (js ''Dancing together forever tonight'') 194 60 True))) =
       [LogShortening (convertCzechCharacters (js ''Dancing together forever tonight''))
          (exampleWidth (docFontStyle (setFont newJsPDF Bold)) 60
            (convertCzechCharacters (js ''Dancing together forever tonight''))) 194,
        LogVowelRemoval (applyVowelRemoval
          (convertCzechCharacters (js ''Dancing together forever tonight''))),
        LogMorpheme (applyMorphemeShortening
          (convertCzechCharacters (js ''Dancing together forever tonight'')))]"
    using b c e shortenPhrase_thresholds [where tw = exampleWidth
        and d = "setFont newJsPDF Bold" and phrase = "js ''Dancing together forever tonight''"
        and maxWidth = 194 and fontSize = 60]
    by (simp add: Let_def case_prod_beta)
  show ?thesis using a b c e A B by (intro conjI) simp_all
qed

text \<open>
  C1 (amended). For every phrase whose transliterated form \<open>t\<close> measures more than
  \<open>0.9 \<times> maxWidth\<close>, \<open>shortenPhrase\<close> with \<open>isSong = true\<close> tries the stages in the fixed
  order vowel removal, morpheme substitution, vowel removal after morpheme substitution,
  aggressive truncation, and returns the output of the first of the first three whose
  measured width is at most \<open>maxWidth\<close>; the first two work on \<open>t\<close>, the third on the
  morpheme substitution of \<open>t\<close>. When none of the three fits, the aggressive truncation is
  returned without a test, and it works on the output of the third stage, not on \<open>t\<close>.
  The console shows the stages tried, in that order.
\<close>

theorem shortenPhrase_first_fitting_stage:
  assumes "maxWidth * 0.9 < tw (docFontStyle d) fontSize (convertCzechCharacters phrase)"
  shows
  "let t = convertCzechCharacters phrase;
       fits = (\<lambda>s. tw (docFontStyle d) fontSize s \<le> maxWidth);
       s1 = applyVowelRemoval t;
       s2 = applyMorphemeShortening t;
       s3 = applyVowelRemoval (applyMorphemeShortening t);
       s4 = snd (applyAggressiveShortening tw (setFontSize d fontSize) s3 maxWidth fontSize);
       (d', log, result) = shortenPhrase tw d phrase maxWidth fontSize True
   in result = firstFit fits [s1, s2, s3] s4
    \<and> log = take (1 + stagesTried fits [s1, s2, s3])
          [LogShortening t (tw (docFontStyle d) fontSize t) maxWidth,
           LogVowelRemoval s1, LogMorpheme s2, LogCombined s3, LogFinal s4]"
  using assms
  by (simp add: shortenPhrase_def Let_def getTextWidth_def setFontSize_def split: prod.splits)

lemma ex_convert_witness:
  "convertCzechCharacters (js ''Something Wonderful Tonight'') =
   js ''Something Wonderful Tonight''"
  by code_simp

theorem shortenPhrase_first_fitting_stage_witness:
  "194 * 0.9 < exampleWidth (docFontStyle (setFont newJsPDF Bold)) 42
       (convertCzechCharacters (js ''Something Wonderful Tonight''))
   \<and> (let t = convertCzechCharacters (js ''Something Wonderful Tonight'');
       fits = (\<lambda>s. exampleWidth (docFontStyle (setFont newJsPDF Bold)) 42 s \<le> 194);
       s1 = applyVowelRemoval t;
       s2 = applyMorphemeShortening t;
       s3 = applyVowelRemoval (applyMorphemeShortening t);
       s4 = snd (applyAggressiveShortening exampleWidth
                   (setFontSize (setFont newJsPDF Bold) 42) s3 194 42);
       (d', log, result) =
         shortenPhrase exampleWidth (setFont newJsPDF Bold)
           (js ''Something Wonderful Tonight'') 194 42 True
   in result = firstFit fits [s1, s2, s3] s4
    \<and> log = take (1 + stagesTried fits [s1, s2, s3])
          [LogShortening t (exampleWidth (docFontStyle (setFont newJsPDF Bold)) 42 t) 194,
           LogVowelRemoval s1, LogMorpheme s2, LogCombined s3, LogFinal s4])"
proof -
  have h: "194 * 0.9 < exampleWidth (docFontStyle (setFont newJsPDF Bold)) 42
       (convertCzechCharacters (js ''Something Wonderful Tonight''))"
    by (simp add: ex_convert_witness exampleWidth_js)
  show ?thesis
    using h shortenPhrase_first_fitting_stage [where tw = exampleWidth
        and d = "setFont newJsPDF Bold" and phrase = "js ''Something Wonderful Tonight''"
        and maxWidth = 194 and fontSize = 42, OF h]
    by (intro conjI) assumption+
qed

theorem shortenPhrase_aggressive_input_counterexample:
  "194 * 0.9 < exampleWidth Bold 60
      (convertCzechCharacters (js ''Dancing together forever tonight''))
   \<and> \<not> exampleWidth Bold 60 (applyVowelRemoval
      (convertCzechCharacters (js ''Dancing together forever tonight''))) \<le> 194
   \<and> \<not> exampleWidth Bold 60 (applyMorphemeShortening
      (convertCzechCharacters (js ''Dancing together forever tonight''))) \<le> 194
   \<and> \<not> exampleWidth Bold 60 (applyVowelRemoval (applyMorphemeShortening
      (convertCzechCharacters (js ''Dancing together forever tonight'')))) \<le> 194
   \<and> snd (snd (shortenPhrase exampleWidth (setFont newJsPDF Bold)
      (js ''Dancing together forever tonight'') 194 60 True)) = js ''Dncg tgtr frr tnt''
   \<and> snd (applyAggressiveShortening exampleWidth (setFontSize (setFont newJsPDF Bold) 60)
      (convertCzechCharacters (js ''Dancing together forever tonight'')) 194 60)
      = js ''Dang togr for tot''
   \<and> snd (snd (shortenPhrase exampleWidth (setFont newJsPDF Bold)
      (js ''Dancing together forever tonight'') 194 60 True))
      \<noteq> snd (applyAggressiveShortening exampleWidth (setFontSize (setFont newJsPDF Bold) 60)
      (convertCzechCharacters (js ''Dancing together forever tonight'')) 194 60)"
  by (simp add: ex_shorten ex_convert ex_vowel ex_morpheme ex_combined
      ex_aggressive [OF ex_loop_original] exampleWidth_js)
     (simp add: js_def)

section \<open>Properties of the export\<close>

text \<open>
  C8. For the empty setlist, \<open>export\<close> returns without an error and leaves everything as
  it was: \<open>this.doc\<close> is not assigned a new document, nothing is drawn, nothing is logged
  and no file is saved. That holds also when the jsPDF library is not loaded.
\<close>

theorem export_empty_setlist:
  "export tw organizer jspdfLoaded today st [] songs = Inr st"
  by (simp add: export_def)

lemma export_nonempty_saves:
  "setlist \<noteq> [] \<Longrightarrow>
   \<exists>st'. export tw organizer True today st setlist songs = Inr st'
     \<and> thisDoc st' \<noteq> None \<and> length (savedFiles st') = Suc (length (savedFiles st))"
  by (simp add: export_def Let_def split: prod.splits)

lemma export_nonempty_needs_library:
  "setlist \<noteq> [] \<Longrightarrow> export tw organizer False today st setlist songs = Inl TypeError"
  by (simp add: export_def)

section \<open>Properties of the font-size search\<close>

lemma estimateLoop_pos:
  "0 < index \<Longrightarrow>
   estimateLoop ss ms items index h =
     h + (\<Sum>it\<leftarrow>items. (if isSongItem it then ss else ms) * PT_TO_MM * 1.05)
       + (\<Sum>it\<leftarrow>filter (\<lambda>it. \<not> isSongItem it) items.
            (if isSongItem it then ss else ms) * PT_TO_MM * 0.15)"
  by (induction items arbitrary: index h) (auto simp: estimateItem_def Let_def)

lemma estimatedHeightFor_stackedHeight: "estimatedHeightFor setlist sz = stackedHeight setlist sz"
proof (cases setlist)
  case Nil
  then show ?thesis by (simp add: estimatedHeightFor_def stackedHeight_def)
next
  case (Cons it rest)
  then show ?thesis
    by (simp add: estimatedHeightFor_def stackedHeight_def estimateLoop_pos estimateItem_def
        Let_def entrySize_def midshowSizeFor_def PT_TO_MM_def cong: if_cong)
qed

lemma availableHeight_usableHeight: "availableHeight = usableHeight"
  by (simp add: availableHeight_def usableHeight_def contentHeight_def pageHeight_def margin_def)

lemma candidates_iff: "c \<in> set candidates \<longleftrightarrow> 24 \<le> c \<and> c \<le> 60 \<and> even c"
proof
  assume "c \<in> set candidates"
  then show "24 \<le> c \<and> c \<le> 60 \<and> even c" by (auto simp: candidates_def)
next
  assume "24 \<le> c \<and> c \<le> 60 \<and> even c"
  then have "c \<in> {24, 26, 28, 30, 32, 34, 36, 38, 40, 42, 44, 46, 48, 50, 52, 54, 56, 58, 60}"
    by (simp; presburger)
  then show "c \<in> set candidates" by (auto simp: candidates_def)
qed

lemma sizeLoop_result:
  "24 \<le> sz \<Longrightarrow> even sz \<Longrightarrow>
   \<exists>c. 24 \<le> c \<and> c \<le> sz \<and> even c
     \<and> sizeLoop setlist sz acc = (real_of_int c, midshowSizeFor c)
     \<and> (\<forall>c'. c < c' \<and> c' \<le> sz \<and> even c' \<longrightarrow> \<not> estimatedHeightFor setlist c' \<le> availableHeight)
     \<and> (estimatedHeightFor setlist c \<le> availableHeight \<or> c = 24)"
proof (induction setlist sz acc rule: sizeLoop.induct)
  case (1 setlist sz sizes)
  show ?case
  proof (cases "estimatedHeightFor setlist sz \<le> availableHeight")
    case True
    with "1.prems" show ?thesis
      by (intro exI [of _ sz]) (simp add: sizeLoop.simps [of setlist sz])
  next
    case False
    show ?thesis
    proof (cases "24 \<le> sz - 2")
      case True
      from "1.IH" [OF "1.prems"(1) False True] "1.prems"(2)
      obtain c where c: "24 \<le> c" "c \<le> sz - 2" "even c"
        "sizeLoop setlist (sz - 2) (real_of_int sz, midshowSizeFor sz) =
           (real_of_int c, midshowSizeFor c)"
        "\<forall>c'. c < c' \<and> c' \<le> sz - 2 \<and> even c' \<longrightarrow>
           \<not> estimatedHeightFor setlist c' \<le> availableHeight"
        "estimatedHeightFor setlist c \<le> availableHeight \<or> c = 24"
        by auto
      have "\<forall>c'. c < c' \<and> c' \<le> sz \<and> even c' \<longrightarrow>
           \<not> estimatedHeightFor setlist c' \<le> availableHeight"
      proof (intro allI impI)
        fix c' assume h: "c < c' \<and> c' \<le> sz \<and> even c'"
        show "\<not> estimatedHeightFor setlist c' \<le> availableHeight"
        proof (cases "c' = sz")
          case True
          with False show ?thesis by simp
        next
          case False
          with h "1.prems"(2) have "c' \<le> sz - 2" by presburger
          with h c(5) show ?thesis by blast
        qed
      qed
      with c False "1.prems" show ?thesis
        by (intro exI [of _ c]) (simp add: sizeLoop.simps [of setlist sz])
    next
      case F2: False
      with "1.prems" have sz: "sz = 24" by presburger
      have "sizeLoop setlist sz sizes = (real_of_int sz, midshowSizeFor sz)"
        using False sz by (simp add: sizeLoop.simps [of setlist 24] sizeLoop.simps [of setlist 22])
      with sz show ?thesis by (intro exI [of _ 24]) simp
    qed
  qed
qed

text \<open>
  C2 (amended). For every setlist with at most 9 song entries: if some candidate in
  \<open>{60, 58, ..., 24}\<close> has an estimated stacked height of at most the usable height, then
  \<open>calculateFontSizes\<close> returns the largest such candidate as \<open>songFontSize\<close>, and
  \<open>max(16, candidate \<times> 0.6)\<close> as the break size; if no candidate fits, it returns
  \<open>songFontSize = 24\<close> and the break size 16. In both cases the sizes are at least 24
  and 14. The estimate of the code is the stacked height of the specification.
\<close>

theorem calculateFontSizes_single_page:
  assumes "length (filter isSongItem setlist) \<le> 9"
  shows
  "((\<exists>c \<in> set candidates. stackedHeight setlist c \<le> usableHeight) \<longrightarrow>
      (\<exists>c \<in> set candidates.
          songFontSize (calculateFontSizes setlist) = real_of_int c
        \<and> midshowFontSize (calculateFontSizes setlist) = max 16 (real_of_int c * 0.6)
        \<and> stackedHeight setlist c \<le> usableHeight
        \<and> (\<forall>c' \<in> set candidates. stackedHeight setlist c' \<le> usableHeight \<longrightarrow> c' \<le> c)))
   \<and> ((\<forall>c \<in> set candidates. \<not> stackedHeight setlist c \<le> usableHeight) \<longrightarrow>
      songFontSize (calculateFontSizes setlist) = 24
      \<and> midshowFontSize (calculateFontSizes setlist) = 16)
   \<and> 24 \<le> songFontSize (calculateFontSizes setlist)
   \<and> 14 \<le> midshowFontSize (calculateFontSizes setlist)"
proof -
  obtain c where c: "24 \<le> c" "c \<le> 60" "even c"
    "sizeLoop setlist 60 (32, 20) = (real_of_int c, midshowSizeFor c)"
    "\<forall>c'. c < c' \<and> c' \<le> 60 \<and> even c' \<longrightarrow> \<not> stackedHeight setlist c' \<le> usableHeight"
    "stackedHeight setlist c \<le> usableHeight \<or> c = 24"
    using sizeLoop_result [of 60 setlist "(32, 20)"]
    by (auto simp: estimatedHeightFor_stackedHeight availableHeight_usableHeight)
  have r: "songFontSize (calculateFontSizes setlist) = real_of_int c"
    "midshowFontSize (calculateFontSizes setlist) = max 16 (real_of_int c * 0.6)"
    using assms c(1,4)
    by (simp_all add: calculateFontSizes_def calculateSinglePageSizes_def midshowSizeFor_def)
  have mem: "c \<in> set candidates" using c(1-3) by (simp add: candidates_iff)
  have upper: "\<forall>c' \<in> set candidates. stackedHeight setlist c' \<le> usableHeight \<longrightarrow> c' \<le> c"
  proof (intro ballI impI)
    fix c' assume "c' \<in> set candidates" and fit: "stackedHeight setlist c' \<le> usableHeight"
    then have "c' \<le> 60" "even c'" by (simp_all add: candidates_iff)
    with c(5) fit show "c' \<le> c" by (cases "c < c'") auto
  qed
  have some: "(\<exists>c \<in> set candidates. stackedHeight setlist c \<le> usableHeight) \<longrightarrow>
      stackedHeight setlist c \<le> usableHeight"
    using c(6) upper c(1) by (auto simp: candidates_iff)
  have none: "(\<forall>c \<in> set candidates. \<not> stackedHeight setlist c \<le> usableHeight) \<longrightarrow> c = 24"
    using c(6) mem by blast
  show ?thesis using r mem upper some none c(1) by auto
qed
lemma isSongItem_exampleSong: "isSongItem (exampleSong s)"
  by (simp add: isSongItem_def exampleSong_def js_def)

lemma isSongItem_exampleBreak: "\<not> isSongItem (exampleBreak b)"
  by (simp add: isSongItem_def exampleBreak_def)

lemma sum_entrySize_breaks:
  "\<forall>b \<in> set bs. \<not> isSongItem b \<Longrightarrow>
   (\<Sum>it\<leftarrow>bs. entrySize c it * k) = real (length bs) * (max 16 (real_of_int c * 0.6) * k)"
  by (induction bs) (simp_all add: entrySize_def algebra_simps)

lemma sum_entrySize_songs:
  "(\<Sum>it\<leftarrow>replicate m (exampleSong s). entrySize c it * k) = real m * (real_of_int c * k)"
  by (induction m) (simp_all add: entrySize_def isSongItem_exampleSong algebra_simps)

lemma stackedHeight_songs_then_breaks:
  assumes "0 < m" and "\<forall>b \<in> set bs. \<not> isSongItem b"
  shows "stackedHeight (replicate m (exampleSong s) @ bs) c =
     real m * (real_of_int c * 0.3528 * 1.05)
     + real (length bs) * (max 16 (real_of_int c * 0.6) * 0.3528 * 1.05)
     + real (length bs) * (max 16 (real_of_int c * 0.6) * 0.3528 * 0.15)"
proof -
  obtain k where m: "m = Suc k" using assms(1) by (cases m) auto
  have t: "filter (\<lambda>it. \<not> isSongItem it) (tl (replicate m (exampleSong s) @ bs)) = bs"
    using assms(2) by (simp add: m isSongItem_exampleSong filter_id_conv)
  have "stackedHeight (replicate m (exampleSong s) @ bs) c =
      (\<Sum>it\<leftarrow>replicate m (exampleSong s). entrySize c it * (0.3528 * 1.05))
      + (\<Sum>it\<leftarrow>bs. entrySize c it * (0.3528 * 1.05))
      + (\<Sum>it\<leftarrow>bs. entrySize c it * (0.3528 * 0.15))"
    unfolding stackedHeight_def t by (simp add: mult.assoc)
  also have "\<dots> = real m * (real_of_int c * (0.3528 * 1.05))
     + real (length bs) * (max 16 (real_of_int c * 0.6) * (0.3528 * 1.05))
     + real (length bs) * (max 16 (real_of_int c * 0.6) * (0.3528 * 0.15))"
    by (simp only: sum_entrySize_songs sum_entrySize_breaks [OF assms(2)])
  finally show ?thesis by (simp add: mult.assoc)
qed

lemma ex_no_candidate_fits:
  "c \<in> set candidates \<Longrightarrow>
   \<not> stackedHeight (replicate 9 (exampleSong ''Song'') @ replicate 27 (exampleBreak ''Break'')) c
      \<le> usableHeight"
  by (auto simp: candidates_def stackedHeight_songs_then_breaks isSongItem_exampleBreak
      usableHeight_def max_def)

lemma ex_sizeLoop_none:
  "sizeLoop (replicate 9 (exampleSong ''Song'') @ replicate 27 (exampleBreak ''Break'')) 60
     (32, 20) = (24, 16)"
proof -
  let ?L = "replicate 9 (exampleSong ''Song'') @ replicate 27 (exampleBreak ''Break'')"
  have "\<exists>c. 24 \<le> c \<and> c \<le> 60 \<and> even c
     \<and> sizeLoop ?L 60 (32, 20) = (real_of_int c, midshowSizeFor c)
     \<and> (\<forall>c'. c < c' \<and> c' \<le> 60 \<and> even c' \<longrightarrow> \<not> estimatedHeightFor ?L c' \<le> availableHeight)
     \<and> (estimatedHeightFor ?L c \<le> availableHeight \<or> c = 24)"
    by (rule sizeLoop_result) simp_all
  then obtain c where c: "24 \<le> c" "c \<le> 60" "even c"
    "sizeLoop ?L 60 (32, 20) = (real_of_int c, midshowSizeFor c)"
    "estimatedHeightFor ?L c \<le> availableHeight \<or> c = 24"
    by blast
  have "c \<in> set candidates" using c(1-3) by (simp add: candidates_iff)
  from ex_no_candidate_fits [OF this] c(5) have "c = 24"
    by (simp add: estimatedHeightFor_stackedHeight availableHeight_usableHeight)
  with c(4) show ?thesis by (simp add: midshowSizeFor_def)
qed

theorem calculateFontSizes_no_fit_counterexample:
  "length (filter isSongItem
      (replicate 9 (exampleSong ''Song'') @ replicate 27 (exampleBreak ''Break''))) \<le> 9
   \<and> songFontSize (calculateFontSizes
      (replicate 9 (exampleSong ''Song'') @ replicate 27 (exampleBreak ''Break''))) = 24
   \<and> \<not> stackedHeight
      (replicate 9 (exampleSong ''Song'') @ replicate 27 (exampleBreak ''Break'')) 24
      \<le> usableHeight"
  using ex_no_candidate_fits [of 24]
  by (simp add: calculateFontSizes_def calculateSinglePageSizes_def ex_sizeLoop_none
      isSongItem_exampleSong isSongItem_exampleBreak candidates_def)

lemma ex_fit_56:
  "stackedHeight (replicate 9 (exampleSong ''Song'') @ replicate 5 (exampleBreak ''Break'')) 56
     \<le> usableHeight"
  by (simp add: stackedHeight_songs_then_breaks isSongItem_exampleBreak usableHeight_def max_def)

theorem calculateFontSizes_single_page_witness:
  "length (filter isSongItem
      (replicate 9 (exampleSong ''Song'') @ replicate 5 (exampleBreak ''Break''))) \<le> 9
   \<and> 56 \<in> set candidates
   \<and> stackedHeight (replicate 9 (exampleSong ''Song'') @ replicate 5 (exampleBreak ''Break''))
        56 \<le> usableHeight
   \<and> 56 \<le> songFontSize (calculateFontSizes
        (replicate 9 (exampleSong ''Song'') @ replicate 5 (exampleBreak ''Break'')))
   \<and> length (filter isSongItem
      (replicate 9 (exampleSong ''Song'') @ replicate 27 (exampleBreak ''Break''))) \<le> 9
   \<and> midshowFontSize (calculateFontSizes
        (replicate 9 (exampleSong ''Song'') @ replicate 27 (exampleBreak ''Break''))) = 16"
proof -
  let ?L1 = "replicate 9 (exampleSong ''Song'') @ replicate 5 (exampleBreak ''Break'')"
  let ?L2 = "replicate 9 (exampleSong ''Song'') @ replicate 27 (exampleBreak ''Break'')"
  have h1: "length (filter isSongItem ?L1) \<le> 9"
    by (simp add: isSongItem_exampleSong isSongItem_exampleBreak)
  have h2: "length (filter isSongItem ?L2) \<le> 9"
    by (simp add: isSongItem_exampleSong isSongItem_exampleBreak)
  have m: "56 \<in> set candidates" by (simp add: candidates_def)
  with ex_fit_56 have e1: "\<exists>c \<in> set candidates. stackedHeight ?L1 c \<le> usableHeight"
    by blast
  have n2: "\<forall>c \<in> set candidates. \<not> stackedHeight ?L2 c \<le> usableHeight"
    using ex_no_candidate_fits by blast
  obtain c where c: "songFontSize (calculateFontSizes ?L1) = real_of_int c"
    "\<forall>c' \<in> set candidates. stackedHeight ?L1 c' \<le> usableHeight \<longrightarrow> c' \<le> c"
    using calculateFontSizes_single_page [OF h1] e1 by blast
  from c(2) m ex_fit_56 have "56 \<le> c" by blast
  with c(1) have r1: "56 \<le> songFontSize (calculateFontSizes ?L1)" by simp
  have r2: "midshowFontSize (calculateFontSizes ?L2) = 16"
    using calculateFontSizes_single_page [OF h2] n2 by blast
  show ?thesis using h1 h2 m ex_fit_56 r1 r2 by blast
qed

section \<open>Properties of the stage view\<close>

lemma length_convertCzechCharacters: "length (convertCzechCharacters s) = length s"
  by (simp add: convertCzechCharacters_def fold_replaceChar_map)

lemma midshowLoop_docCalls:
  "docCalls (fst (midshowLoop tw d t maxWidth fontSize w)) = docCalls d"
proof (induction tw d t maxWidth fontSize w rule: midshowLoop.induct)
  case (1 tw d workingText maxWidth fontSize textWidth)
  show ?case
  proof (cases "textWidth > maxWidth \<and> fontSize > 8")
    case False
    then show ?thesis
      by (subst midshowLoop.simps) auto
  next
    case True
    with "1.IH" [OF True] show ?thesis
      by (simp add: midshowLoop.simps [of tw d workingText maxWidth fontSize textWidth]
          setFontSize_def)
  qed
qed

text \<open>What the loop guarantees: the size goes down in steps of one point from the base
  size; it stops when the text fits or the size is at most 8; from a base above 8 it
  stays above 7; and a text that fits at the base size keeps the base size.\<close>

lemma midshowLoop_size:
  "(\<exists>k::nat. fst (snd (midshowLoop tw d t maxWidth fontSize w)) = fontSize - real k)
   \<and> (snd (snd (midshowLoop tw d t maxWidth fontSize w)) \<le> maxWidth
      \<or> fst (snd (midshowLoop tw d t maxWidth fontSize w)) \<le> 8)
   \<and> (8 < fontSize \<longrightarrow> 7 < fst (snd (midshowLoop tw d t maxWidth fontSize w)))
   \<and> (w \<le> maxWidth \<longrightarrow> fst (snd (midshowLoop tw d t maxWidth fontSize w)) = fontSize)"
proof (induction tw d t maxWidth fontSize w rule: midshowLoop.induct)
  case (1 tw d workingText maxWidth fontSize textWidth)
  show ?case
  proof (cases "textWidth > maxWidth \<and> fontSize > 8")
    case False
    then have "midshowLoop tw d workingText maxWidth fontSize textWidth =
        (d, fontSize, textWidth)"
      by (subst midshowLoop.simps) auto
    with False show ?thesis by (auto intro: exI [of _ 0])
  next
    case True
    let ?r = "midshowLoop tw (setFontSize d (fontSize - 1)) workingText maxWidth (fontSize - 1)
        (getTextWidth tw (setFontSize d (fontSize - 1)) workingText)"
    have eq: "midshowLoop tw d workingText maxWidth fontSize textWidth = ?r"
      using True by (simp add: midshowLoop.simps [of tw d workingText maxWidth fontSize textWidth])
    from "1.IH" [OF True] obtain k :: nat where
      k: "fst (snd ?r) = fontSize - 1 - real k"
      and stop: "snd (snd ?r) \<le> maxWidth \<or> fst (snd ?r) \<le> 8"
      and low: "8 < fontSize - 1 \<longrightarrow> 7 < fst (snd ?r)"
      by blast
    have "fst (snd ?r) = fontSize - real (Suc k)" using k by simp
    then have ex: "\<exists>k::nat. fst (snd ?r) = fontSize - real k" by blast
    have low': "7 < fst (snd ?r)"
    proof (cases "8 < fontSize - 1")
      case True
      with low show ?thesis by simp
    next
      case False
      then have "midshowLoop tw (setFontSize d (fontSize - 1)) workingText maxWidth
          (fontSize - 1) (getTextWidth tw (setFontSize d (fontSize - 1)) workingText) =
          (setFontSize d (fontSize - 1), fontSize - 1,
           getTextWidth tw (setFontSize d (fontSize - 1)) workingText)"
        by (simp add: midshowLoop.simps [of tw "setFontSize d (fontSize - 1)" workingText
              maxWidth "fontSize - 1"])
      with True show ?thesis by simp
    qed
    show ?thesis unfolding eq using ex stop low' True by auto
  qed
qed

text \<open>A break entry is drawn at the size \<open>calculateMidshowFontSize\<close> returns for its
  label, the width of the break column and the break size of the plan.\<close>

lemma addSetlistItem_break_size:
  assumes "\<not> isSongItem it"
  shows "drawnFontSizes (fst (addSetlistItem tw sizes forceSinglePage (d, con, y) it index)) =
    drawnFontSizes d @
      [snd (snd (calculateMidshowFontSize tw d (itemText it) (contentWidth - 15)
         (midshowFontSize sizes)))]"
proof -
  let ?t = "convertCzechCharacters (itemText it)"
  let ?d1 = "d\<lparr>docFontSize := midshowFontSize sizes\<rparr>"
  obtain d2 fs w where ml:
    "midshowLoop tw ?d1 ?t (contentWidth - 15) (midshowFontSize sizes) (getTextWidth tw ?d1 ?t)
       = (d2, fs, w)"
    by (cases "midshowLoop tw ?d1 ?t (contentWidth - 15) (midshowFontSize sizes)
       (getTextWidth tw ?d1 ?t)") auto
  have "docCalls d2 = docCalls ?d1"
    using midshowLoop_docCalls [of tw ?d1 ?t "contentWidth - 15" "midshowFontSize sizes"
        "getTextWidth tw ?d1 ?t"] by (simp add: ml)
  then have calls: "docCalls d2 = docCalls d" by simp
  show ?thesis
    using assms
    by (simp add: addSetlistItem_def calculateMidshowFontSize_def shortenPhrase_def Let_def ml
        drawnFontSizes_def drawText_def addPage_def setFont_def setFontSize_def calls)
qed

lemma ex_plan_56:
  "calculateFontSizes
     (replicate 9 (exampleSong ''Song'') @ replicate 5 (exampleBreak (replicate 110 CHR ''x'')))
   = \<lparr>songFontSize = 56, midshowFontSize = 33.6\<rparr>"
proof -
  let ?L = "replicate 9 (exampleSong ''Song'') @
    replicate 5 (exampleBreak (replicate 110 CHR ''x''))"
  have "sizeLoop ?L 60 (32, 20) = (56, 33.6)"
    by (simp add: sizeLoop.simps [of ?L] estimatedHeightFor_stackedHeight
        availableHeight_usableHeight usableHeight_def stackedHeight_songs_then_breaks
        isSongItem_exampleBreak midshowSizeFor_def max_def)
  then show ?thesis
    by (simp add: calculateFontSizes_def calculateSinglePageSizes_def isSongItem_exampleSong
        isSongItem_exampleBreak)
qed

text \<open>
  C9, at a break label of 110 characters in a setlist of 9 songs and 5 breaks, with
  every character \<open>0.2\<close> mm wide for each point: the plan's break size is 33.6; the label
  does not fit the break column of 179 mm at 8.6 points, the loop takes one more step,
  and the label is drawn at 7.6 points, under the floor of 8.
\<close>

theorem calculateMidshowFontSize_below_floor:
  "midshowFontSize (calculateFontSizes
      (replicate 9 (exampleSong ''Song'') @
       replicate 5 (exampleBreak (replicate 110 CHR ''x'')))) = 33.6
   \<and> snd (snd (calculateMidshowFontSize exampleWidth (setFont newJsPDF Bold)
        (itemText (exampleBreak (replicate 110 CHR ''x''))) (contentWidth - 15) 33.6)) = 7.6"
proof (rule conjI)
  show "midshowFontSize (calculateFontSizes
      (replicate 9 (exampleSong ''Song'') @
       replicate 5 (exampleBreak (replicate 110 CHR ''x'')))) = 33.6"
    by (simp add: ex_plan_56)
  show "snd (snd (calculateMidshowFontSize exampleWidth (setFont newJsPDF Bold)
        (itemText (exampleBreak (replicate 110 CHR ''x''))) (contentWidth - 15) 33.6)) = 7.6"
    by (simp add: calculateMidshowFontSize_def Let_def midshowLoop.simps
        getTextWidth_def setFontSize_def exampleWidth_def exampleBreak_def js_def
        length_convertCzechCharacters contentWidth_def pageWidth_def margin_def)
qed

section \<open>Properties of the vowel removal\<close>

lemma split_space_nonempty: "split_space s \<noteq> []"
  by (induction s) (auto split: list.splits)

lemma join_space_Cons: "join_space (w # ws) = (if ws = [] then w else w @ 0x20 # join_space ws)"
  by (cases ws) simp_all

lemma join_split_space: "join_space (split_space s) = s"
proof (induction s)
  case Nil
  then show ?case by simp
next
  case (Cons c cs)
  obtain w ws where ws: "split_space cs = w # ws"
    using split_space_nonempty [of cs] by (cases "split_space cs") auto
  with Cons show ?case by (auto simp: join_space_Cons split: if_splits)
qed

lemma split_space_no_space: "w \<in> set (split_space s) \<Longrightarrow> 0x20 \<notin> set w"
proof (induction s arbitrary: w)
  case Nil
  then show ?case by simp
next
  case (Cons c cs)
  obtain v vs where vs: "split_space cs = v # vs"
    using split_space_nonempty [of cs] by (cases "split_space cs") auto
  with Cons show ?case by (auto split: if_splits)
qed

lemma vowelRemovalWord_spec: "vowelRemovalWord word = vowelRemovalWordSpec word"
proof (cases "length word \<le> 3")
  case True
  then show ?thesis by (simp add: vowelRemovalWord_def vowelRemovalWordSpec_def)
next
  case False
  then have ne: "word \<noteq> []" "tl word \<noteq> []" "butlast (tl word) \<noteq> []"
    by (cases word; cases "tl word"; auto)+
  have mid: "substring word (Suc 0) (length word - Suc 0) = butlast (tl word)"
    using False by (simp add: substring_def butlast_conv_take drop_Suc)
  have h: "word ! 0 = hd word" "word ! (length word - Suc 0) = last word"
    "butlast (tl word) ! 0 = hd (butlast (tl word))"
    using ne by (simp_all add: hd_conv_nth last_conv_nth)
  show ?thesis
    using False by (simp add: vowelRemovalWord_def vowelRemovalWordSpec_def Let_def mid h)
qed

lemma vowelRemovalWord_spec_fun: "vowelRemovalWord = vowelRemovalWordSpec"
  by (rule ext) (rule vowelRemovalWord_spec)

text \<open>
  C4 (amended). For every input phrase, the vowel-removal stage maps each word as the
  specification says (at most 3 characters: unchanged; longer: first and last character
  kept, vowels stripped from the interior, the first interior character kept when the
  stripping empties the interior), where the words are the pieces between single space
  characters: the pieces contain no space and, joined by single spaces, give the phrase
  back, so a run of spaces delimits empty words and other white space, such as a tab,
  delimits nothing. The transformed words are rejoined with single spaces.
\<close>

theorem applyVowelRemoval_by_words:
  "applyVowelRemoval phrase = join_space (map vowelRemovalWordSpec (split_space phrase))
   \<and> join_space (split_space phrase) = phrase
   \<and> (\<forall>w \<in> set (split_space phrase). 0x20 \<notin> set w)"
  using split_space_no_space [of _ phrase]
  by (auto simp: applyVowelRemoval_def vowelRemovalWord_spec_fun join_split_space)

theorem applyVowelRemoval_by_words_witness:
  "js ''Song'' \<in> set (split_space (js ''Love  Song''))
   \<and> 0x20 \<notin> set (js ''Song'')
   \<and> applyVowelRemoval (js ''Love  Song'') =
       join_space (map vowelRemovalWordSpec (split_space (js ''Love  Song'')))
   \<and> join_space (map vowelRemovalWordSpec [js ''Love'', [], js ''Song'']) = js ''Lve  Sng''"
proof -
  have m: "js ''Song'' \<in> set (split_space (js ''Love  Song''))" by code_simp
  have e: "join_space (map vowelRemovalWordSpec [js ''Love'', [], js ''Song'']) = js ''Lve  Sng''"
    by code_simp
  show ?thesis using m e applyVowelRemoval_by_words [of "js ''Love  Song''"] by blast
qed

theorem applyVowelRemoval_tab_counterexample:
  "applyVowelRemoval (js ''abe'' @ [0x09] @ js ''uf'') = js ''ab'' @ [0x09] @ js ''f''
   \<and> whitespaceWords (js ''abe'' @ [0x09] @ js ''uf'') = [js ''abe'', js ''uf'']
   \<and> join_space (map vowelRemovalWordSpec (whitespaceWords (js ''abe'' @ [0x09] @ js ''uf'')))
       = js ''abe uf''
   \<and> applyVowelRemoval (js ''abe'' @ [0x09] @ js ''uf'')
       \<noteq> join_space (map vowelRemovalWordSpec (whitespaceWords (js ''abe'' @ [0x09] @ js ''uf'')))"
  by code_simp

section \<open>Properties of the aggressive truncation\<close>













section \<open>Properties of the morpheme substitution\<close>

lemma commonAbbreviations_keys: "list_all (\<lambda>(k, a). lowerCaseWord k) commonAbbreviations"
  by (simp add: commonAbbreviations_def js_def lowerCaseWord_def)

lemma canonicalize_lower_eq:
  "0x61 \<le> k \<Longrightarrow> k \<le> 0x7A \<Longrightarrow> (canonicalize k = canonicalize c) = (k = toLowerASCII c)"
  unfolding canonicalize_def toLowerASCII_def
  by (auto simp: word_le_nat_alt word_less_nat_alt unat_sub unat_word_ariths)

lemma canonicalize_lower_nonword:
  "0x61 \<le> k \<Longrightarrow> k \<le> 0x7A \<Longrightarrow> \<not> isWordChar x \<Longrightarrow> canonicalize k \<noteq> canonicalize x"
  using canonicalize_lower_eq [of k x]
  by (auto simp: toLowerASCII_def isWordChar_def split: if_splits)

lemma matchesPrefix_length: "matchesPrefix k s \<Longrightarrow> length k \<le> length s"
  by (induction k s rule: matchesPrefix.induct) (auto split: if_splits)

lemma matchesPrefix_before_nonword:
  "list_all (\<lambda>c. 0x61 \<le> c \<and> c \<le> 0x7A) k \<Longrightarrow> \<not> isWordChar x \<Longrightarrow>
   matchesPrefix k (s @ x # v) = matchesPrefix k s"
  by (induction k s rule: matchesPrefix.induct) (auto simp: canonicalize_lower_nonword)

lemma wordBoundary_before_nonword:
  "\<not> isWordChar x \<Longrightarrow> wordBoundary b (s @ x # v) = wordBoundary b s"
  by (cases s) (simp_all add: wordBoundary_def)

lemma matchesAt_before_nonword:
  assumes "lowerCaseWord k" and "\<not> isWordChar x"
  shows "matchesAt k prev (s @ x # v) = matchesAt k prev s"
proof (cases "matchesPrefix k s")
  case False
  then show ?thesis
    using assms by (simp add: matchesAt_def matchesPrefix_before_nonword lowerCaseWord_def
        wordBoundary_before_nonword)
next
  case True
  then have "length k \<le> length s" by (rule matchesPrefix_length)
  then have "take (length k) (s @ x # v) = take (length k) s"
    "drop (length k) (s @ x # v) = drop (length k) s @ x # v"
    by simp_all
  then show ?thesis
    using assms by (simp add: matchesAt_def matchesPrefix_before_nonword lowerCaseWord_def
        wordBoundary_before_nonword)
qed

lemma matchesAt_Nil: "\<not> matchesAt k prev []"
  by (cases k) (simp_all add: matchesAt_def)

text \<open>One pass of the replacement works on the two sides of a character that is not a
  word character separately, and copies that character.\<close>

lemma replaceWord_nonword:
  assumes "lowerCaseWord k" and "\<not> isWordChar x"
  shows "replaceWord k a prev (u @ x # v) =
    replaceWord k a prev u @ x # replaceWord k a False v"
  using assms(1)
proof (induction k a prev u rule: replaceWord.induct)
  case (1 word abbrev prev)
  have "\<not> matchesAt word prev (x # v)"
    using matchesAt_before_nonword [OF "1.prems" assms(2), of prev "[]" v]
    by (simp add: matchesAt_Nil)
  then show ?case using assms(2) by simp
next
  case (2 word abbrev prev c cs)
  have m: "matchesAt word prev (c # cs @ x # v) = matchesAt word prev (c # cs)"
    using matchesAt_before_nonword [OF "2.prems" assms(2), of prev "c # cs" v] by simp
  show ?case
  proof (cases "matchesAt word prev (c # cs)")
    case True
    then have "matchesPrefix word (c # cs)" by (simp add: matchesAt_def split: if_splits)
    then have len: "length word \<le> length (c # cs)" by (rule matchesPrefix_length)
    then have td: "take (length word) (c # cs @ x # v) = take (length word) (c # cs)"
      "drop (length word) (c # cs @ x # v) = drop (length word) (c # cs) @ x # v"
      using take_append [of "length word" "c # cs" "x # v"]
        drop_append [of "length word" "c # cs" "x # v"] by simp_all
    have "replaceWord word abbrev prev (c # cs @ x # v) =
        abbrev @ replaceWord word abbrev (isWordChar (last (take (length word) (c # cs))))
          (drop (length word) (c # cs) @ x # v)"
      using True m td by (simp del: take_Suc_Cons drop_Suc_Cons)
    also have "\<dots> = abbrev @
        replaceWord word abbrev (isWordChar (last (take (length word) (c # cs))))
          (drop (length word) (c # cs)) @ x # replaceWord word abbrev False v"
      using "2.IH"(1) [OF True "2.prems"] by simp
    also have "\<dots> = replaceWord word abbrev prev (c # cs) @ x # replaceWord word abbrev False v"
      using True by (simp del: take_Suc_Cons drop_Suc_Cons)
    finally show ?thesis by simp
  next
    case False
    with m "2.IH"(2) [OF False "2.prems"] show ?thesis by simp
  qed
qed

lemma fold_replaceWord_nonword:
  "list_all (\<lambda>(k, a). lowerCaseWord k) tbl \<Longrightarrow> \<not> isWordChar x \<Longrightarrow>
   fold (\<lambda>(word, abbrev) result. replaceWord word abbrev False result) tbl (u @ x # v) =
   fold (\<lambda>(word, abbrev) result. replaceWord word abbrev False result) tbl u @ x #
   fold (\<lambda>(word, abbrev) result. replaceWord word abbrev False result) tbl v"
  by (induction tbl arbitrary: u v) (auto simp: replaceWord_nonword)

lemma fold_replaceWord_Nil:
  "fold (\<lambda>(word, abbrev) result. replaceWord word abbrev False result) tbl [] = []"
  by (induction tbl) auto

text \<open>Behind a word character, a string of word characters has no word boundary, so
  nothing is replaced in it.\<close>

lemma replaceWord_inside_word:
  "list_all isWordChar s \<Longrightarrow> replaceWord k a True s = s"
  by (induction s) (simp_all add: matchesAt_def wordBoundary_def)

lemma matchesPrefix_whole:
  "list_all (\<lambda>c. 0x61 \<le> c \<and> c \<le> 0x7A) k \<Longrightarrow>
   (matchesPrefix k s \<and> length s = length k) = (k = map toLowerASCII s)"
  by (induction k s rule: matchesPrefix.induct) (auto simp: canonicalize_lower_eq)

lemma matchesAt_word:
  assumes "lowerCaseWord k" and "list_all isWordChar w"
  shows "matchesAt k False w = (k = map toLowerASCII w)"
proof (cases "matchesPrefix k w")
  case False
  then show ?thesis
    using assms matchesPrefix_whole [of k w] by (auto simp: matchesAt_def lowerCaseWord_def)
next
  case True
  then have len: "length k \<le> length w" by (rule matchesPrefix_length)
  from assms(1) have k: "k \<noteq> []" "list_all (\<lambda>c. 0x61 \<le> c \<and> c \<le> 0x7A) k"
    by (simp_all add: lowerCaseWord_def)
  with len have w: "w \<noteq> []" by auto
  then have first: "wordBoundary False w"
    using assms(2) by (cases w) (simp_all add: wordBoundary_def)
  have "take (length k) w \<noteq> []" using k(1) w by simp
  then have "last (take (length k) w) \<in> set w"
    using last_in_set [of "take (length k) w"] in_set_takeD by fastforce
  then have lastw: "isWordChar (last (take (length k) w))"
    using assms(2) by (simp add: list_all_iff)
  have rest: "wordBoundary True (drop (length k) w) = (length w = length k)"
  proof (cases "drop (length k) w")
    case Nil
    then show ?thesis using len by (simp add: wordBoundary_def)
  next
    case (Cons x xs)
    then have "x \<in> set w" by (metis in_set_dropD list.set_intros(1))
    then have "isWordChar x" using assms(2) by (simp add: list_all_iff)
    moreover have "length w \<noteq> length k" using Cons by auto
    ultimately show ?thesis using Cons by (simp add: wordBoundary_def)
  qed
  show ?thesis
    using True k first lastw rest matchesPrefix_whole [OF k(2), of w]
    by (simp add: matchesAt_def)
qed

lemma replaceWord_word:
  assumes "lowerCaseWord k" and "list_all isWordChar w"
  shows "replaceWord k a False w = (if k = map toLowerASCII w then a else w)"
proof (cases w)
  case Nil
  then show ?thesis using assms(1) by (simp add: lowerCaseWord_def)
next
  case (Cons c cs)
  show ?thesis
  proof (cases "k = map toLowerASCII w")
    case True
    then have m: "matchesAt k False (c # cs)"
      using matchesAt_word [OF assms] Cons by simp
    have "length k = length w" using True by simp
    then have "drop (length k) (c # cs) = []" using Cons by simp
    then show ?thesis using m True Cons by (simp del: drop_Suc_Cons take_Suc_Cons)
  next
    case False
    then have "\<not> matchesAt k False (c # cs)"
      using matchesAt_word [OF assms] Cons by simp
    then show ?thesis
      using False Cons assms(2) by (simp add: replaceWord_inside_word)
  qed
qed

text \<open>No word of the dictionary occurs in an abbreviation, but for \<open>the\<close>, which is its
  own abbreviation: a pass over an abbreviation leaves it as it is.\<close>

lemma abbreviations_inert:
  "list_all (\<lambda>(k, a). list_all (\<lambda>(k', a'). replaceWord k' a' False a = a) commonAbbreviations)
     commonAbbreviations"
  by code_simp

lemma fold_replaceWord_inert:
  "\<forall>(k', a') \<in> set tbl. replaceWord k' a' False a = a \<Longrightarrow>
   fold (\<lambda>(word, abbrev) result. replaceWord word abbrev False result) tbl a = a"
  by (induction tbl) auto

lemma fold_replaceWord_word:
  assumes "list_all isWordChar w"
  shows "list_all (\<lambda>(k, a). lowerCaseWord k) tbl \<Longrightarrow>
   \<forall>(k, a) \<in> set tbl. \<forall>(k', a') \<in> set tbl. replaceWord k' a' False a = a \<Longrightarrow>
   fold (\<lambda>(word, abbrev) result. replaceWord word abbrev False result) tbl w =
   (case map_of tbl (map toLowerASCII w) of Some abbrev \<Rightarrow> abbrev | None \<Rightarrow> w)"
proof (induction tbl)
  case Nil
  then show ?case by simp
next
  case (Cons p tbl)
  obtain k a where p: "p = (k, a)" by (cases p)
  from Cons.prems(1) have k: "lowerCaseWord k" and tl: "list_all (\<lambda>(k, a). lowerCaseWord k) tbl"
    by (simp_all add: p)
  from Cons.prems(2) have inert_tl:
    "\<forall>(k, a) \<in> set tbl. \<forall>(k', a') \<in> set tbl. replaceWord k' a' False a = a"
    by fastforce
  from Cons.prems(2) have inert_a: "\<forall>(k', a') \<in> set tbl. replaceWord k' a' False a = a"
    by (fastforce simp: p)
  show ?case
  proof (cases "map toLowerASCII w = k")
    case True
    then have "replaceWord k a False w = a"
      using replaceWord_word [OF k assms, of a] by simp
    then show ?thesis
      using fold_replaceWord_inert [OF inert_a] True by (simp add: p)
  next
    case False
    then have "replaceWord k a False w = w"
      using replaceWord_word [OF k assms, of a] by auto
    then show ?thesis
      using Cons.IH [OF tl inert_tl] False by (auto simp: p)
  qed
qed

text \<open>
  C10. For every phrase, the morpheme-substitution stage is the substitution word by
  word, the words being the maximal runs of letters, digits and underscores: a word whose
  lower-case form is a key of \<open>commonAbbreviations\<close> is replaced by the abbreviation in the
  spelling of the dictionary, whatever the capitals of the word were; every other word
  and every other character keeps its form. Only \<open>commonAbbreviations\<close>, with its 22
  entries, decides.
\<close>

theorem applyMorphemeShortening_abbreviateWords:
  "applyMorphemeShortening phrase = abbreviateWords phrase"
proof (induction phrase rule: abbreviateWords.induct)
  case 1
  then show ?case by (simp add: applyMorphemeShortening_def fold_replaceWord_Nil)
next
  case (2 c cs)
  let ?F = "fold (\<lambda>(word, abbrev) result. replaceWord word abbrev False result)
    commonAbbreviations"
  have inert: "\<forall>(k, a) \<in> set commonAbbreviations. \<forall>(k', a') \<in> set commonAbbreviations.
      replaceWord k' a' False a = a"
    using abbreviations_inert by (simp add: list_all_iff)
  show ?case
  proof (cases "isWordChar c")
    case False
    have "?F ([] @ c # cs) = ?F [] @ c # ?F cs"
      by (rule fold_replaceWord_nonword [OF commonAbbreviations_keys False])
    then have "?F (c # cs) = c # ?F cs" by (simp add: fold_replaceWord_Nil)
    with "2.IH"(2) [OF False] False show ?thesis
      by (simp add: applyMorphemeShortening_def)
  next
    case True
    let ?w = "c # takeWhile isWordChar cs"
    let ?r = "dropWhile isWordChar cs"
    have w: "list_all isWordChar ?w"
      using True by (simp add: list_all_iff) (meson set_takeWhileD)
    have Fw: "?F ?w = abbreviateWord ?w"
      using fold_replaceWord_word [OF w commonAbbreviations_keys inert]
      by (simp add: abbreviateWord_def)
    have split: "c # cs = ?w @ ?r" by simp
    have "?F (?w @ ?r) = abbreviateWord ?w @ ?F ?r"
    proof (cases ?r)
      case Nil
      have "?F (?w @ ?r) = ?F ?w" by (simp only: Nil append_Nil2)
      also have "\<dots> = abbreviateWord ?w" by (rule Fw)
      also have "\<dots> = abbreviateWord ?w @ ?F ?r"
        by (simp only: Nil fold_replaceWord_Nil append_Nil2)
      finally show ?thesis .
    next
      case (Cons x v)
      then have x: "\<not> isWordChar x" by (metis hd_dropWhile list.distinct(1) list.sel(1))
      have "?F (?w @ x # v) = ?F ?w @ x # ?F v"
        by (rule fold_replaceWord_nonword [OF commonAbbreviations_keys x])
      moreover have "?F ([] @ x # v) = ?F [] @ x # ?F v"
        by (rule fold_replaceWord_nonword [OF commonAbbreviations_keys x])
      ultimately show ?thesis using Fw Cons by (simp add: fold_replaceWord_Nil)
    qed
    then have "?F (c # cs) = abbreviateWord ?w @ ?F ?r" by (simp only: split [symmetric])
    with "2.IH"(1) [OF True] True show ?thesis
      by (simp add: applyMorphemeShortening_def)
  qed
qed

lemma ex_abbreviateWords:
  "abbreviateWords (js ''Tonight and/or The Never-ever love'') =
   js ''tnght &/or the nvr-ever love''"
  by code_simp

theorem applyMorphemeShortening_abbreviateWords_witness:
  "applyMorphemeShortening (js ''Tonight and/or The Never-ever love'') =
     js ''tnght &/or the nvr-ever love''
   \<and> length commonAbbreviations = 22"
  using applyMorphemeShortening_abbreviateWords [of "js ''Tonight and/or The Never-ever love''"]
    ex_abbreviateWords
  by (simp add: commonAbbreviations_def)


end
